theory Spec2Isabelle
  imports Complex_Main
begin

section \<open>JavaScript values\<close>

text \<open>
  The values an atom can hold and a client query can carry. A JavaScript number is a
  double: every finite double is a rational, so \<open>Fin\<close> over the rationals covers
  them all, and the three non-finite doubles are constructors of their own. Objects
  and functions are compared by identity, so an object value is its address \<open>VRef\<close>
  in the heap.
\<close>

datatype number = Fin rat | NaN | PosInfinity | NegInfinity

datatype val =
    VUndefined
  | VNull
  | VBool bool
  | VNum number
  | VStr string
  | VRef nat

text \<open>\<open>a === b\<close>: the same value, except that \<open>NaN\<close> is not equal to itself.\<close>

definition strict_eq :: "val \<Rightarrow> val \<Rightarrow> bool" where
  "strict_eq a b = (a = b \<and> a \<noteq> VNum NaN)"

text \<open>\<open>a !== b\<close>\<close>

definition strict_neq :: "val \<Rightarrow> val \<Rightarrow> bool" where
  "strict_neq a b = (\<not> strict_eq a b)"

text \<open>
  Truthiness, as \<open>if (x)\<close>, \<open>!x\<close> and \<open>x ? a : b\<close> test it: the falsy values are
  \<open>undefined\<close>, \<open>null\<close>, \<open>false\<close>, zero, \<open>NaN\<close> and the empty string.
\<close>

fun truthy :: "val \<Rightarrow> bool" where
  "truthy VUndefined = False"
| "truthy VNull = False"
| "truthy (VBool b) = b"
| "truthy (VNum (Fin q)) = (q \<noteq> 0)"
| "truthy (VNum NaN) = False"
| "truthy (VNum PosInfinity) = True"
| "truthy (VNum NegInfinity) = True"
| "truthy (VStr s) = (s \<noteq> [])"
| "truthy (VRef r) = True"

text \<open>A thrown value: an \<open>Error\<close> with its message.\<close>

datatype error = Error string | TypeError string

text \<open>
  An object is its own properties; the heap is the sequence of the objects allocated so
  far, an address being an index in it. Allocation appends, so no object ever moves.
\<close>

type_synonym obj = "string \<rightharpoonup> val"

type_synonym heap = "obj list"

definition alloc :: "heap \<Rightarrow> obj \<Rightarrow> heap \<times> nat" where
  "alloc h ob = (h @ [ob], length h)"

text \<open>Reading a property: \<open>undefined\<close> when the object has none of that name.\<close>

definition get_prop :: "obj \<Rightarrow> string \<Rightarrow> val" where
  "get_prop ob k = (case ob k of None \<Rightarrow> VUndefined | Some v \<Rightarrow> v)"


section \<open>The atom: state/atom.tsx\<close>

text \<open>
  A listener is a function object; \<open>indexOf\<close> finds it by identity, so a listener is
  modelled by the identity of its function object.
\<close>

type_synonym listener = nat

text \<open>The two fields of class \<open>AtomValue\<close>.\<close>

record AtomValue =
  value' :: val
  listeners :: "listener list"

text \<open>
  The world an atom lives in: the atom's fields, the record of every listener
  invocation so far with its two arguments \<open>(value, prevValue)\<close>, in order, and the
  heap of the objects values refer to.
\<close>

record world = AtomValue +
  calls :: "(listener \<times> val \<times> val) list"
  heap :: heap

text \<open>
  What a listener's body does when it is called, as far as the atom can see it: it may
  subscribe or unsubscribe a listener, call \<open>set\<close> on the atom again, or throw; it does
  these in order. Anything else a body does is invisible to the atom. What a body does
  may depend on the two arguments of the call and, a listener being a closure with a
  state of its own, on all the calls made to listeners before: the bodies of all
  listeners are a table from the calls made so far, the listener and the two arguments.
\<close>

datatype action =
    Subscribe listener
  | Unsubscribe listener
  | SetValue val
  | Throw error

type_synonym bodies = "(listener \<times> val \<times> val) list \<Rightarrow> listener \<Rightarrow> val \<Rightarrow> val \<Rightarrow> action list"

text \<open>
  A call on the atom either returns or throws; in both cases the world is the one the
  call left behind. \<open>None\<close> is a call that did not finish within the nesting depth
  allowed (a listener that keeps calling \<open>set\<close> with a new value never finishes).
\<close>

datatype outcome = Returns world | Throws error world

definition get :: "world \<Rightarrow> val" where
  "get w = value' w"

text \<open>The handle \<open>() => this.unsubscribe(listener)\<close>: a closure over the listener.\<close>

datatype handle = Handle listener

definition subscribe :: "listener \<Rightarrow> world \<Rightarrow> handle \<times> world" where
  "subscribe l w = (Handle l, w\<lparr>listeners := listeners w @ [l]\<rparr>)"

text \<open>\<open>Array.prototype.indexOf\<close>: the first index, \<open>None\<close> for \<open>-1\<close>.\<close>

fun indexOf :: "listener list \<Rightarrow> listener \<Rightarrow> nat option" where
  "indexOf [] l = None"
| "indexOf (x # xs) l =
     (if x = l then Some 0
      else (case indexOf xs l of None \<Rightarrow> None | Some i \<Rightarrow> Some (Suc i)))"

text \<open>\<open>splice(idx, 1)\<close>: removes the one element at \<open>idx\<close>.\<close>

definition splice1 :: "nat \<Rightarrow> 'a list \<Rightarrow> 'a list" where
  "splice1 idx xs = take idx xs @ drop (Suc idx) xs"

definition unsubscribe :: "listener \<Rightarrow> world \<Rightarrow> world" where
  "unsubscribe l w =
     (case indexOf (listeners w) l of
        None \<Rightarrow> w
      | Some idx \<Rightarrow> w\<lparr>listeners := splice1 idx (listeners w)\<rparr>)"

fun call_handle :: "handle \<Rightarrow> world \<Rightarrow> world" where
  "call_handle (Handle l) w = unsubscribe l w"

text \<open>
  Running the body of a listener. \<open>reenter\<close> is the atom's \<open>set\<close> as the body can call
  it. A throw ends the body, and the world stays as the body left it.
\<close>

fun perform :: "(val \<Rightarrow> world \<Rightarrow> outcome option) \<Rightarrow> action list \<Rightarrow> world \<Rightarrow> outcome option" where
  "perform reenter [] w = Some (Returns w)"
| "perform reenter (Subscribe l # acts) w = perform reenter acts (snd (subscribe l w))"
| "perform reenter (Unsubscribe l # acts) w = perform reenter acts (unsubscribe l w)"
| "perform reenter (SetValue v # acts) w =
     (case reenter v w of
        None \<Rightarrow> None
      | Some (Throws e w') \<Rightarrow> Some (Throws e w')
      | Some (Returns w') \<Rightarrow> perform reenter acts w')"
| "perform reenter (Throw e # acts) w = Some (Throws e w)"

text \<open>One call \<open>l(value, prevValue)\<close>: recorded, then the body runs.\<close>

definition invoke ::
  "(val \<Rightarrow> world \<Rightarrow> outcome option) \<Rightarrow> bodies \<Rightarrow> listener \<Rightarrow> val \<Rightarrow> val \<Rightarrow> world \<Rightarrow> outcome option" where
  "invoke reenter B l v prev w =
     perform reenter (B (calls w) l v prev) (w\<lparr>calls := calls w @ [(l, v, prev)]\<rparr>)"

text \<open>
  \<open>forEach((l) => l(this.value, prevValue))\<close> over the copy of the listeners:
  \<open>this.value\<close> is read at each call, and a listener that throws ends the loop.
\<close>

fun forEach ::
  "(val \<Rightarrow> world \<Rightarrow> outcome option) \<Rightarrow> bodies \<Rightarrow> listener list \<Rightarrow> val \<Rightarrow> world \<Rightarrow> outcome option" where
  "forEach reenter B [] prev w = Some (Returns w)"
| "forEach reenter B (l # ls) prev w =
     (case invoke reenter B l (value' w) prev w of
        None \<Rightarrow> None
      | Some (Throws e w') \<Rightarrow> Some (Throws e w')
      | Some (Returns w') \<Rightarrow> forEach reenter B ls prev w')"

text \<open>\<open>this.listeners.slice()\<close> is the list as it is when the pass starts.\<close>

definition notifyChanged ::
  "(val \<Rightarrow> world \<Rightarrow> outcome option) \<Rightarrow> bodies \<Rightarrow> val \<Rightarrow> world \<Rightarrow> outcome option" where
  "notifyChanged reenter B prevValue w = forEach reenter B (listeners w) prevValue w"

definition set_body ::
  "(val \<Rightarrow> world \<Rightarrow> outcome option) \<Rightarrow> bodies \<Rightarrow> val \<Rightarrow> world \<Rightarrow> outcome option" where
  "set_body reenter B nextValue w =
     (if strict_neq nextValue (value' w)
      then notifyChanged reenter B (value' w) (w\<lparr>value' := nextValue\<rparr>)
      else Some (Returns w))"

text \<open>
  \<open>set\<close>, with the depth to which listeners may call \<open>set\<close> again: at depth 0 a
  listener's own call of \<open>set\<close> does not finish.
\<close>

fun no_reenter :: "val \<Rightarrow> world \<Rightarrow> outcome option" where
  "no_reenter v w = None"

fun set_atom :: "nat \<Rightarrow> bodies \<Rightarrow> val \<Rightarrow> world \<Rightarrow> outcome option" where
  "set_atom 0 B nextValue w = set_body no_reenter B nextValue w"
| "set_atom (Suc n) B nextValue w = set_body (set_atom n B) B nextValue w"

definition deserialize :: "nat \<Rightarrow> bodies \<Rightarrow> val \<Rightarrow> world \<Rightarrow> outcome option" where
  "deserialize n B v w = set_atom n B v w"

definition serialize :: "world \<Rightarrow> val" where
  "serialize w = get w"

text \<open>The world a call left behind, whether it returned or threw.\<close>

fun world_of :: "outcome \<Rightarrow> world" where
  "world_of (Returns w) = w"
| "world_of (Throws e w) = w"


text \<open>The \<open>set\<close> a listener reaches when the outer \<open>set\<close> runs at depth \<open>n\<close>.\<close>

definition nested_set :: "nat \<Rightarrow> bodies \<Rightarrow> val \<Rightarrow> world \<Rightarrow> outcome option" where
  "nested_set n B = (case n of 0 \<Rightarrow> no_reenter | Suc m \<Rightarrow> set_atom m B)"

text \<open>
  A quiet action changes only the listener list: the body neither throws nor calls
  \<open>set\<close>. \<open>relisten\<close> is the listener list after a sequence of actions.
\<close>

fun quiet :: "action \<Rightarrow> bool" where
  "quiet (Subscribe l) = True"
| "quiet (Unsubscribe l) = True"
| "quiet (SetValue v) = False"
| "quiet (Throw e) = False"

fun relisten :: "action list \<Rightarrow> listener list \<Rightarrow> listener list" where
  "relisten [] ls = ls"
| "relisten (Subscribe l # acts) ls = relisten acts (ls @ [l])"
| "relisten (Unsubscribe l # acts) ls = relisten acts (remove1 l ls)"
| "relisten (a # acts) ls = relisten acts ls"

text \<open>
  The actions of the bodies of the listeners \<open>ls\<close>, called in this order with the same
  two arguments after the calls \<open>cs\<close>.
\<close>

fun pass_actions :: "bodies \<Rightarrow> (listener \<times> val \<times> val) list \<Rightarrow> listener list \<Rightarrow> val \<Rightarrow> val \<Rightarrow> action list" where
  "pass_actions B cs [] v prev = []"
| "pass_actions B cs (l # ls) v prev =
     B cs l v prev @ pass_actions B (cs @ [(l, v, prev)]) ls v prev"


text \<open>
  A later world of the same run: the record of calls has only grown, and the heap is
  the same.
\<close>

definition grown_from :: "world \<Rightarrow> world \<Rightarrow> bool" where
  "grown_from w w' = ((\<exists>cs. calls w' = calls w @ cs) \<and> heap w' = heap w)"



subsection \<open>The copy-on-write draft\<close>












subsection \<open>The read hook \<open>useValue\<close>\<close>

text \<open>
  React keeps the hook's state cell \<open>localValue\<close>; its setter \<open>setLocalValue\<close> is a
  function object, the listener the hook subscribes. React calls the hook's body at
  every render of the component, the first being the mount, and runs the effect after
  the mount and after a render in which the atom is another one. \<open>useState\<close> takes its
  argument as the state at the first render only: at a later render it returns the
  state the cell has. The atom argument is the atom's world, \<open>None\<close> for \<open>undefined\<close>;
  the state before the render is \<open>None\<close> at the mount.
\<close>

record hook =
  localValue :: val

datatype cleanup = Cleanup listener

definition useState :: "hook option \<Rightarrow> val \<Rightarrow> hook" where
  "useState before initial =
     (case before of None \<Rightarrow> \<lparr>localValue = initial\<rparr> | Some hk \<Rightarrow> hk)"

text \<open>\<open>useState(atom ? atom.get() : defaultValue!)\<close>\<close>

definition useValue_render :: "hook option \<Rightarrow> world option \<Rightarrow> val \<Rightarrow> hook" where
  "useValue_render before atom defaultValue =
     useState before (case atom of Some w \<Rightarrow> get w | None \<Rightarrow> defaultValue)"

text \<open>
  The body of \<open>useEffect\<close>: with no atom it returns at once; otherwise
  \<open>setLocalValue(atom.get())\<close>, then \<open>subscribe(setLocalValue)\<close>, and the function
  that unsubscribes is returned.
\<close>

definition useValue_effect ::
  "listener \<Rightarrow> world option \<Rightarrow> hook \<Rightarrow> world option \<times> hook \<times> cleanup option" where
  "useValue_effect setLocalValue atom hk =
     (case atom of
        None \<Rightarrow> (None, hk, None)
      | Some w \<Rightarrow>
          (let hk' = hk\<lparr>localValue := get w\<rparr>;
               w' = snd (subscribe setLocalValue w)
           in (Some w', hk', Some (Cleanup setLocalValue))))"

text \<open>The function the effect returns, run when the component unmounts.\<close>

fun run_cleanup :: "cleanup \<Rightarrow> world \<Rightarrow> world" where
  "run_cleanup (Cleanup l) w = unsubscribe l w"

text \<open>What the hook returns to the component.\<close>

definition useValue_result :: "hook \<Rightarrow> val" where
  "useValue_result hk = localValue hk"


section \<open>Client queries\<close>

text \<open>
  \<open>transformCertificateExchangeMediumToType\<close>: the argument is a number or
  \<open>undefined\<close> (\<open>None\<close>). A \<open>switch\<close> compares with \<open>===\<close>: \<open>NaN\<close> matches no case.
  The conversion of a number to a string, which \<open>+\<close> applies to build the message, is
  the language's and is a parameter.
\<close>

definition transformCertificateExchangeMediumToType ::
  "(number \<Rightarrow> string) \<Rightarrow> number option \<Rightarrow> error + string" where
  "transformCertificateExchangeMediumToType toString medium =
     (case medium of
        None \<Rightarrow> Inr ''FS_ACCESS''
      | Some m \<Rightarrow>
          if m = Fin 1 then Inr ''FS_ACCESS''
          else if m = Fin 2 then Inr ''WWW''
          else if m = Fin 3 then Inr ''NONE''
          else Inl (Error (''Unknown Certificate exchange medium: '' @ toString m)))"

text \<open>
  \<open>cloneClientQuerySafeForLogging\<close>: the query is an object in the heap. The object
  literal allocates a new object, the spread copies the query's own properties, and
  the property \<open>csr\<close> is then written.
\<close>

definition cloneClientQuerySafeForLogging :: "heap \<Rightarrow> nat \<Rightarrow> heap \<times> nat" where
  "cloneClientQuerySafeForLogging h clientQuery =
     (let q = h ! clientQuery;
          csr = get_prop q ''csr''
      in alloc h (q(''csr'' \<mapsto> (if \<not> truthy csr then csr else VStr ''<hidden>''))))"


section \<open>The table plugin\<close>

text \<open>
  The options \<open>createTablePlugin\<close> reads in the handler of the data method, and the
  part of the plugin instance the handler touches: the data source \<open>rows\<close> and the atom
  \<open>isPaused\<close>. \<open>DataSource\<close> is not part of the sources: the data source is of any type,
  and its methods \<open>upsert\<close> and \<open>append\<close> are parameters, which may throw.
\<close>

record table_props =
  buildRow :: "(val \<Rightarrow> error + val) option"
  key :: "val option"

record 'ds plugin_instance =
  rows :: 'ds
  isPaused :: world

text \<open>\<open>if (props.key)\<close>: an option that is absent is \<open>undefined\<close>.\<close>

definition key_truthy :: "table_props \<Rightarrow> bool" where
  "key_truthy props = (case key props of None \<Rightarrow> False | Some k \<Rightarrow> truthy k)"

text \<open>\<open>props.buildRow ? props.buildRow(event) : event\<close>; \<open>buildRow\<close> may throw.\<close>

definition build_row :: "table_props \<Rightarrow> val \<Rightarrow> error + val" where
  "build_row props event = (case buildRow props of Some f \<Rightarrow> f event | None \<Rightarrow> Inr event)"

text \<open>The handler given to \<open>client.onMessage(props.method, ...)\<close>.\<close>

definition onMessage ::
  "('ds \<Rightarrow> val \<Rightarrow> error + 'ds) \<Rightarrow> ('ds \<Rightarrow> val \<Rightarrow> error + 'ds) \<Rightarrow> table_props \<Rightarrow>
   'ds plugin_instance \<Rightarrow> val \<Rightarrow> error + 'ds plugin_instance" where
  "onMessage upsert append' props inst event =
     (if truthy (get (isPaused inst)) then Inr inst
      else
        (case build_row props event of
           Inl e \<Rightarrow> Inl e
         | Inr row \<Rightarrow>
             (case (if key_truthy props then upsert (rows inst) row
                    else append' (rows inst) row) of
                Inl e \<Rightarrow> Inl e
              | Inr ds \<Rightarrow> Inr (inst\<lparr>rows := ds\<rparr>))))"


section \<open>Example worlds\<close>

text \<open>
  An atom holding 1 with the listeners 0 and 1 registered, and tables of listener
  bodies: no listener does anything; listener 0 throws; listener 0 calls \<open>set(3)\<close>
  when it is told of the value 2; listener 0, the first time it is called, subscribes
  listener 5 and unsubscribes listener 1.
\<close>

definition two_listeners :: world where
  "two_listeners = \<lparr>value' = VNum (Fin 1), listeners = [0, 1], calls = [], heap = []\<rparr>"

definition silent_bodies :: bodies where
  "silent_bodies cs l v prev = []"

definition failing_bodies :: bodies where
  "failing_bodies cs l v prev = (if l = 0 then [Throw (Error ''boom'')] else [])"

definition resetting_bodies :: bodies where
  "resetting_bodies cs l v prev =
     (if l = 0 \<and> v = VNum (Fin 2) then [SetValue (VNum (Fin 3))] else [])"

definition subscribing_bodies :: bodies where
  "subscribing_bodies cs l v prev =
     (if l = 0 \<and> 0 \<notin> set (map fst cs) then [Subscribe 5, Unsubscribe 1] else [])"

text \<open>An atom holding 1 on which listener 0 is registered twice.\<close>

definition registered_twice :: world where
  "registered_twice = \<lparr>value' = VNum (Fin 1), listeners = [0, 0], calls = [], heap = []\<rparr>"

text \<open>The world after \<open>set(NaN)\<close> on \<open>two_listeners\<close> with silent listeners.\<close>

definition holding_nan :: world where
  "holding_nan =
     \<lparr>value' = VNum NaN, listeners = [0, 1],
      calls = [(0, VNum NaN, VNum (Fin 1)), (1, VNum NaN, VNum (Fin 1))], heap = []\<rparr>"


text \<open>The world after a first pass over \<open>two_listeners\<close> with \<open>subscribing_bodies\<close>.\<close>

definition after_first_pass :: world where
  "after_first_pass =
     \<lparr>value' = VNum (Fin 1), listeners = [0, 5],
      calls = [(0, VNum (Fin 1), VNum (Fin 0)), (1, VNum (Fin 1), VNum (Fin 0))], heap = []\<rparr>"

text \<open>The same atom once the value 2 has been stored, before the listeners are told.\<close>

definition holding_two :: world where
  "holding_two = \<lparr>value' = VNum (Fin 2), listeners = [0, 1], calls = [], heap = []\<rparr>"



text \<open>
  The worlds between and after the two calls of the pass that \<open>set(2)\<close> runs on
  \<open>two_listeners\<close> when listener 0 calls \<open>set(3)\<close>.
\<close>

definition inside_pass :: world where
  "inside_pass =
     \<lparr>value' = VNum (Fin 3), listeners = [0, 1],
      calls = [(0, VNum (Fin 2), VNum (Fin 1)), (0, VNum (Fin 3), VNum (Fin 2)),
               (1, VNum (Fin 3), VNum (Fin 2))],
      heap = []\<rparr>"

definition after_nested_pass :: world where
  "after_nested_pass =
     \<lparr>value' = VNum (Fin 3), listeners = [0, 1],
      calls = [(0, VNum (Fin 2), VNum (Fin 1)), (0, VNum (Fin 3), VNum (Fin 2)),
               (1, VNum (Fin 3), VNum (Fin 2)), (1, VNum (Fin 3), VNum (Fin 1))],
      heap = []\<rparr>"










section \<open>Example queries and plugins\<close>

text \<open>A number-to-string conversion that is right at 4.\<close>

definition always_four :: "number \<Rightarrow> string" where
  "always_four m = ''4''"

text \<open>Two client queries: one with a certificate signing request, one with an empty one.\<close>

definition query_heap :: heap where
  "query_heap =
     [[''app'' \<mapsto> VStr ''demo'', ''csr'' \<mapsto> VStr ''secret''],
      [''app'' \<mapsto> VStr ''demo'', ''csr'' \<mapsto> VStr '''']]"

text \<open>
  A data source that records which of its two methods was called with which row; a
  plugin instance with no rows, paused or not; options with no \<open>buildRow\<close> and a given
  \<open>key\<close>.
\<close>

definition logging_upsert :: "(string \<times> val) list \<Rightarrow> val \<Rightarrow> error + (string \<times> val) list" where
  "logging_upsert ds row = Inr (ds @ [(''upsert'', row)])"

definition logging_append :: "(string \<times> val) list \<Rightarrow> val \<Rightarrow> error + (string \<times> val) list" where
  "logging_append ds row = Inr (ds @ [(''append'', row)])"

definition flag_atom :: "bool \<Rightarrow> world" where
  "flag_atom b = \<lparr>value' = VBool b, listeners = [], calls = [], heap = []\<rparr>"

definition table_instance :: "bool \<Rightarrow> (string \<times> val) list plugin_instance" where
  "table_instance paused = \<lparr>rows = [], isPaused = flag_atom paused\<rparr>"

definition keyed_props :: "val option \<Rightarrow> table_props" where
  "keyed_props k = \<lparr>buildRow = None, key = k\<rparr>"


section \<open>Properties of the atom\<close>

lemma indexOf_remove1:
  "(case indexOf xs l of None \<Rightarrow> xs | Some i \<Rightarrow> splice1 i xs) = remove1 l xs"
  by (induction xs) (auto simp: splice1_def split: option.splits)

lemma unsubscribe_eq: "unsubscribe l w = w\<lparr>listeners := remove1 l (listeners w)\<rparr>"
  using indexOf_remove1 [of "listeners w" l]
  by (simp add: unsubscribe_def split: option.splits)

lemma relisten_append: "relisten (xs @ ys) ls = relisten ys (relisten xs ls)"
  by (induction xs ls rule: relisten.induct) simp_all

lemma relisten_keeps:
  "m \<in> set ls \<or> Subscribe m \<in> set acts \<Longrightarrow> Unsubscribe m \<notin> set acts \<Longrightarrow>
   m \<in> set (relisten acts ls)"
  by (induction acts ls rule: relisten.induct) auto

text \<open>A quiet body returns, and leaves all but the listener list as it was.\<close>

lemma perform_quiet:
  "list_all quiet acts \<Longrightarrow>
   perform reenter acts w = Some (Returns (w\<lparr>listeners := relisten acts (listeners w)\<rparr>))"
proof (induction acts arbitrary: w)
  case Nil
  then show ?case by simp
next
  case (Cons a acts)
  then show ?case
    by (cases a) (simp_all add: subscribe_def unsubscribe_eq)
qed

text \<open>
  The loop over a list of quiet listeners calls each of them once, in order, with the
  same two arguments, whatever the bodies do to the listener list meanwhile.
\<close>

lemma forEach_quiet:
  "\<forall>cs. \<forall>l\<in>set ls. list_all quiet (B cs l (value' w) prev) \<Longrightarrow>
   forEach reenter B ls prev w =
     Some (Returns (w\<lparr>listeners := relisten (pass_actions B (calls w) ls (value' w) prev) (listeners w),
                      calls := calls w @ map (\<lambda>l. (l, value' w, prev)) ls\<rparr>))"
proof (induction ls arbitrary: w)
  case Nil
  then show ?case by simp
next
  case (Cons l ls)
  then show ?case
    by (simp add: invoke_def perform_quiet relisten_append)
qed

lemma set_atom_body: "set_atom n B v w = set_body (nested_set n B) B v w"
  by (cases n) (simp_all add: nested_set_def)

lemma set_atom_same: "strict_eq v (value' w) \<Longrightarrow> set_atom n B v w = Some (Returns w)"
  by (simp add: set_atom_body set_body_def strict_neq_def)

lemma set_atom_quiet:
  assumes "strict_neq b (value' w)"
    and "\<forall>cs. \<forall>l\<in>set (listeners w). list_all quiet (B cs l b (value' w))"
  shows "set_atom n B b w =
     Some (Returns (w\<lparr>value' := b,
        listeners := relisten (pass_actions B (calls w) (listeners w) b (value' w)) (listeners w),
        calls := calls w @ map (\<lambda>l. (l, b, value' w)) (listeners w)\<rparr>))"
  using assms forEach_quiet [of "listeners w" B "w\<lparr>value' := b\<rparr>" "value' w" "nested_set n B"]
  by (simp add: set_atom_body set_body_def notifyChanged_def)

lemma remove1_split:
  "f \<in> set xs \<Longrightarrow> \<exists>pre post. xs = pre @ f # post \<and> f \<notin> set pre \<and> remove1 f xs = pre @ post"
proof (induction xs)
  case Nil
  then show ?case by simp
next
  case (Cons x xs)
  show ?case
  proof (cases "x = f")
    case True
    then show ?thesis by (intro exI [of _ "[]"] exI [of _ xs]) simp
  next
    case False
    with Cons obtain pre post where "xs = pre @ f # post" "f \<notin> set pre" "remove1 f xs = pre @ post"
      by auto
    with False show ?thesis by (intro exI [of _ "x # pre"] exI [of _ post]) simp
  qed
qed

lemma remove1_last_copy: "count_list xs f \<le> 1 \<Longrightarrow> f \<notin> set (remove1 f xs)"
  by (induction xs) (auto simp: count_list_0_iff)

lemma set_atom_holds:
  assumes "\<forall>cs. \<forall>l\<in>set (listeners w). list_all quiet (B cs l a (value' w))"
  shows "\<exists>w1. set_atom n B a w = Some (Returns w1) \<and> value' w1 = a"
proof (cases "strict_neq a (value' w)")
  case True
  with assms show ?thesis by (simp add: set_atom_quiet)
next
  case False
  then have e: "strict_eq a (value' w)" by (simp add: strict_neq_def)
  then have "value' w = a" by (simp add: strict_eq_def)
  with e show ?thesis by (simp add: set_atom_same)
qed

lemma forEach_quiet_pass:
  "list_all quiet (pass_actions B (calls w) ls (value' w) prev) \<Longrightarrow>
   forEach reenter B ls prev w =
     Some (Returns (w\<lparr>listeners := relisten (pass_actions B (calls w) ls (value' w) prev) (listeners w),
                      calls := calls w @ map (\<lambda>l. (l, value' w, prev)) ls\<rparr>))"
proof (induction ls arbitrary: w)
  case Nil
  then show ?case by simp
next
  case (Cons l ls)
  then show ?case
    by (simp add: invoke_def perform_quiet relisten_append)
qed

lemma grown_from_refl: "grown_from w w"
  by (simp add: grown_from_def)

lemma grown_from_trans: "grown_from w u \<Longrightarrow> grown_from u x \<Longrightarrow> grown_from w x"
  by (auto simp: grown_from_def)

lemma perform_grows:
  assumes re: "\<forall>v u out. reenter v u = Some out \<longrightarrow> grown_from u (world_of out)"
  shows "perform reenter acts w = Some out \<Longrightarrow> grown_from w (world_of out)"
proof (induction acts arbitrary: w)
  case Nil
  then show ?case by (auto simp: grown_from_refl)
next
  case (Cons a acts)
  show ?case
  proof (cases a)
    case (Subscribe l)
    with Cons.prems have "perform reenter acts (w\<lparr>listeners := listeners w @ [l]\<rparr>) = Some out"
      by (simp add: subscribe_def)
    from Cons.IH [OF this] show ?thesis by (simp add: grown_from_def)
  next
    case (Unsubscribe l)
    with Cons.prems have "perform reenter acts (w\<lparr>listeners := remove1 l (listeners w)\<rparr>) = Some out"
      by (simp add: unsubscribe_eq)
    from Cons.IH [OF this] show ?thesis by (simp add: grown_from_def)
  next
    case (SetValue v)
    show ?thesis
    proof (cases "reenter v w")
      case None
      with Cons.prems SetValue show ?thesis by simp
    next
      case (Some o1)
      with re have g1: "grown_from w (world_of o1)" by blast
      show ?thesis
      proof (cases o1)
        case (Returns w1)
        with Cons.prems SetValue Some have "perform reenter acts w1 = Some out" by simp
        from Cons.IH [OF this] g1 Returns show ?thesis by (auto intro: grown_from_trans)
      next
        case (Throws e w1)
        with Cons.prems SetValue Some g1 show ?thesis by auto
      qed
    qed
  next
    case (Throw e)
    with Cons.prems show ?thesis by (auto simp: grown_from_refl)
  qed
qed

lemma invoke_grows:
  assumes re: "\<forall>v u out. reenter v u = Some out \<longrightarrow> grown_from u (world_of out)"
    and run: "invoke reenter B l v prev w = Some out"
  shows "(\<exists>cs. calls (world_of out) = calls w @ (l, v, prev) # cs) \<and> heap (world_of out) = heap w"
proof -
  from run have "perform reenter (B (calls w) l v prev) (w\<lparr>calls := calls w @ [(l, v, prev)]\<rparr>) = Some out"
    by (simp add: invoke_def)
  with re have "grown_from (w\<lparr>calls := calls w @ [(l, v, prev)]\<rparr>) (world_of out)"
    by (rule perform_grows)
  then show ?thesis by (simp add: grown_from_def)
qed

lemma forEach_grows:
  assumes re: "\<forall>v u out. reenter v u = Some out \<longrightarrow> grown_from u (world_of out)"
  shows "forEach reenter B ls prev w = Some out \<Longrightarrow> grown_from w (world_of out)"
proof (induction ls arbitrary: w)
  case Nil
  then show ?case by (auto simp: grown_from_refl)
next
  case (Cons l ls)
  show ?case
  proof (cases "invoke reenter B l (value' w) prev w")
    case None
    with Cons.prems show ?thesis by simp
  next
    case (Some o1)
    with re have "(\<exists>cs. calls (world_of o1) = calls w @ (l, value' w, prev) # cs) \<and>
        heap (world_of o1) = heap w"
      by (rule invoke_grows)
    then have g1: "grown_from w (world_of o1)" by (auto simp: grown_from_def)
    show ?thesis
    proof (cases o1)
      case (Returns w1)
      with Cons.prems Some have "forEach reenter B ls prev w1 = Some out" by simp
      from Cons.IH [OF this] g1 Returns show ?thesis by (auto intro: grown_from_trans)
    next
      case (Throws e w1)
      with Cons.prems Some g1 show ?thesis by auto
    qed
  qed
qed

lemma set_body_grows:
  assumes re: "\<forall>v u out. reenter v u = Some out \<longrightarrow> grown_from u (world_of out)"
    and run: "set_body reenter B v w = Some out"
  shows "grown_from w (world_of out)"
proof (cases "strict_neq v (value' w)")
  case True
  with run have "forEach reenter B (listeners w) (value' w) (w\<lparr>value' := v\<rparr>) = Some out"
    by (simp add: set_body_def notifyChanged_def)
  with re have "grown_from (w\<lparr>value' := v\<rparr>) (world_of out)"
    by (rule forEach_grows)
  then show ?thesis by (simp add: grown_from_def)
next
  case False
  with run show ?thesis by (auto simp: set_body_def grown_from_refl)
qed

lemma set_atom_grows:
  "\<forall>v w out. set_atom n B v w = Some out \<longrightarrow> grown_from w (world_of out)"
proof (induction n)
  case 0
  have none: "\<forall>v u out. no_reenter v u = Some out \<longrightarrow> grown_from u (world_of out)"
    by simp
  show ?case
  proof (intro allI impI)
    fix v w out assume "set_atom 0 B v w = Some out"
    then have "set_body no_reenter B v w = Some out" by simp
    with none show "grown_from w (world_of out)" by (rule set_body_grows)
  qed
next
  case (Suc n)
  show ?case
  proof (intro allI impI)
    fix v w out assume "set_atom (Suc n) B v w = Some out"
    then have "set_body (set_atom n B) B v w = Some out" by simp
    with Suc show "grown_from w (world_of out)" by (rule set_body_grows)
  qed
qed

lemma nested_set_grows:
  "\<forall>v w out. nested_set n B v w = Some out \<longrightarrow> grown_from w (world_of out)"
  using set_atom_grows by (cases n) (auto simp: nested_set_def)

lemma forEach_chain:
  "forEach reenter B ls prev w = Some (Returns w') \<Longrightarrow>
   \<exists>ws. length ws = Suc (length ls) \<and> ws ! 0 = w \<and> ws ! length ls = w' \<and>
     (\<forall>i<length ls. invoke reenter B (ls ! i) (value' (ws ! i)) prev (ws ! i) =
        Some (Returns (ws ! Suc i)))"
proof (induction ls arbitrary: w)
  case Nil
  then show ?case by (intro exI [of _ "[w]"]) simp
next
  case (Cons l ls)
  from Cons.prems obtain w1
    where first: "invoke reenter B l (value' w) prev w = Some (Returns w1)"
      and rest: "forEach reenter B ls prev w1 = Some (Returns w')"
    by (auto split: option.splits outcome.splits)
  from Cons.IH [OF rest] obtain ws
    where ws: "length ws = Suc (length ls)" "ws ! 0 = w1" "ws ! length ls = w'"
      "\<forall>i<length ls. invoke reenter B (ls ! i) (value' (ws ! i)) prev (ws ! i) =
        Some (Returns (ws ! Suc i))"
    by blast
  have "\<forall>i<length (l # ls). invoke reenter B ((l # ls) ! i) (value' ((w # ws) ! i)) prev ((w # ws) ! i) =
        Some (Returns ((w # ws) ! Suc i))"
  proof (intro allI impI)
    fix i assume "i < length (l # ls)"
    then show "invoke reenter B ((l # ls) ! i) (value' ((w # ws) ! i)) prev ((w # ws) ! i) =
        Some (Returns ((w # ws) ! Suc i))"
      using first ws by (cases i) auto
  qed
  with ws show ?case by (intro exI [of _ "w # ws"]) simp
qed











lemma useValue_effect_resyncs:
  "useValue_result (fst (snd (useValue_effect s (Some w) hk))) = get w"
  by (simp add: useValue_effect_def useValue_result_def Let_def)

text \<open>
  C1, as amended. When \<open>b\<close> is not strictly equal to the value \<open>a\<close> the atom holds,
  and no listener registered throws or calls \<open>set\<close> when called with \<open>(b, a)\<close>, then
  \<open>set(b)\<close> returns, stores \<open>b\<close>, and calls every listener registered at that moment
  with \<open>(b, a)\<close>, once for each of its registrations, in subscription order. \<open>set(v)\<close>
  with \<open>v\<close> strictly equal to the current value returns the world as it was: the value
  is unchanged and no listener is called. In particular, a \<open>set(a)\<close> whose listeners
  are quiet leaves the atom holding \<open>a\<close>; a second \<open>set(a)\<close> then does nothing provided
  \<open>a\<close> is strictly equal to itself, that is, \<open>a\<close> is not \<open>NaN\<close>; and a \<open>set(b)\<close>
  then calls each listener once with \<open>(b, a)\<close>. All this holds at every depth \<open>n\<close>.
\<close>

theorem set_stores_and_notifies:
  "(strict_neq b (value' w) \<and>
    (\<forall>cs. \<forall>l\<in>set (listeners w). list_all quiet (B cs l b (value' w))) \<longrightarrow>
      (\<exists>w'. set_atom n B b w = Some (Returns w') \<and> value' w' = b \<and>
            calls w' = calls w @ map (\<lambda>l. (l, b, value' w)) (listeners w)))
   \<and> (strict_eq v (value' w) \<longrightarrow> set_atom n B v w = Some (Returns w))
   \<and> ((\<forall>cs. \<forall>l\<in>set (listeners w). list_all quiet (B cs l a (value' w))) \<longrightarrow>
      (\<exists>w1. set_atom n B a w = Some (Returns w1) \<and> value' w1 = a \<and>
         (strict_eq a a \<longrightarrow> set_atom n B a w1 = Some (Returns w1)) \<and>
         (strict_neq b a \<and> (\<forall>cs. \<forall>l\<in>set (listeners w1). list_all quiet (B cs l b a)) \<longrightarrow>
            (\<exists>w2. set_atom n B b w1 = Some (Returns w2) \<and> value' w2 = b \<and>
                  calls w2 = calls w1 @ map (\<lambda>l. (l, b, a)) (listeners w1)))))"
proof -
  have once: "\<exists>w'. set_atom n B b u = Some (Returns w') \<and> value' w' = b \<and>
            calls w' = calls u @ map (\<lambda>l. (l, b, value' u)) (listeners u)"
    if "strict_neq b (value' u)"
      and "\<forall>cs. \<forall>l\<in>set (listeners u). list_all quiet (B cs l b (value' u))" for u
    using that by (simp add: set_atom_quiet)
  have twice: "\<exists>w1. set_atom n B a w = Some (Returns w1) \<and> value' w1 = a \<and>
         (strict_eq a a \<longrightarrow> set_atom n B a w1 = Some (Returns w1)) \<and>
         (strict_neq b a \<and> (\<forall>cs. \<forall>l\<in>set (listeners w1). list_all quiet (B cs l b a)) \<longrightarrow>
            (\<exists>w2. set_atom n B b w1 = Some (Returns w2) \<and> value' w2 = b \<and>
                  calls w2 = calls w1 @ map (\<lambda>l. (l, b, a)) (listeners w1)))"
    if q: "\<forall>cs. \<forall>l\<in>set (listeners w). list_all quiet (B cs l a (value' w))"
  proof -
    from q have "\<exists>w1. set_atom n B a w = Some (Returns w1) \<and> value' w1 = a"
      by (rule set_atom_holds)
    then obtain w1
      where w1: "set_atom n B a w = Some (Returns w1)" "value' w1 = a"
      by blast
    have again: "set_atom n B a w1 = Some (Returns w1)" if "strict_eq a a"
      using that w1(2) by (simp add: set_atom_same)
    have next_set: "\<exists>w2. set_atom n B b w1 = Some (Returns w2) \<and> value' w2 = b \<and>
                  calls w2 = calls w1 @ map (\<lambda>l. (l, b, a)) (listeners w1)"
      if "strict_neq b a \<and> (\<forall>cs. \<forall>l\<in>set (listeners w1). list_all quiet (B cs l b a))"
      using once [of w1] that w1(2) by simp
    from w1 again next_set show ?thesis by blast
  qed
  from once [of w] twice set_atom_same [of v w n B] show ?thesis by blast
qed

text \<open>
  At \<open>two_listeners\<close>, where listener 0 at its first call subscribes listener 5 and
  unsubscribes listener 1: \<open>set(2)\<close> calls the listeners 0 and 1 with \<open>(2, 1)\<close>, and
  \<open>set(1)\<close> does nothing.
\<close>

theorem set_stores_and_notifies_witness:
  "strict_neq (VNum (Fin 2)) (value' two_listeners)
   \<and> (\<forall>cs. list_all quiet (subscribing_bodies cs 0 (VNum (Fin 2)) (VNum (Fin 1))))
   \<and> (\<forall>cs. list_all quiet (subscribing_bodies cs 1 (VNum (Fin 2)) (VNum (Fin 1))))
   \<and> set_atom 0 subscribing_bodies (VNum (Fin 2)) two_listeners =
       Some (Returns
         \<lparr>value' = VNum (Fin 2), listeners = [0, 5],
          calls = [(0, VNum (Fin 2), VNum (Fin 1)), (1, VNum (Fin 2), VNum (Fin 1))],
          heap = []\<rparr>)
   \<and> strict_eq (VNum (Fin 1)) (value' two_listeners)
   \<and> set_atom 0 subscribing_bodies (VNum (Fin 1)) two_listeners = Some (Returns two_listeners)"
  using set_stores_and_notifies [where b = "VNum (Fin 2)" and w = two_listeners
      and B = subscribing_bodies and n = 0 and v = "VNum (Fin 1)" and a = "VNum (Fin 1)"]
  by (simp add: two_listeners_def subscribing_bodies_def strict_neq_def strict_eq_def
      set_body_def notifyChanged_def invoke_def subscribe_def unsubscribe_def splice1_def)

text \<open>
  The claim as stated fails in four ways. With listener 0 throwing, \<open>set(2)\<close> on an atom
  holding 1 throws after the call of listener 0: listener 1, registered, is never
  called. With listener 0 calling \<open>set(3)\<close> from its body, listener 1 is called twice
  by the one \<open>set(2)\<close>, with \<open>(3, 2)\<close> and with \<open>(3, 1)\<close>, and never with \<open>(2, 1)\<close>. On
  an atom that a first \<open>set(NaN)\<close> left holding \<open>NaN\<close>, the second \<open>set(NaN)\<close> calls
  both listeners again. And a listener registered twice is called twice.
\<close>

theorem set_notifies_counterexample:
  "set_atom 0 failing_bodies (VNum (Fin 2)) two_listeners =
     Some (Throws (Error ''boom'')
       \<lparr>value' = VNum (Fin 2), listeners = [0, 1],
        calls = [(0, VNum (Fin 2), VNum (Fin 1))], heap = []\<rparr>)
   \<and> set_atom 1 resetting_bodies (VNum (Fin 2)) two_listeners =
     Some (Returns
       \<lparr>value' = VNum (Fin 3), listeners = [0, 1],
        calls = [(0, VNum (Fin 2), VNum (Fin 1)), (0, VNum (Fin 3), VNum (Fin 2)),
                 (1, VNum (Fin 3), VNum (Fin 2)), (1, VNum (Fin 3), VNum (Fin 1))],
        heap = []\<rparr>)
   \<and> set_atom 0 silent_bodies (VNum NaN) two_listeners = Some (Returns holding_nan)
   \<and> set_atom 0 silent_bodies (VNum NaN) holding_nan =
     Some (Returns
       \<lparr>value' = VNum NaN, listeners = [0, 1],
        calls = [(0, VNum NaN, VNum (Fin 1)), (1, VNum NaN, VNum (Fin 1)),
                 (0, VNum NaN, VNum NaN), (1, VNum NaN, VNum NaN)],
        heap = []\<rparr>)
   \<and> set_atom 0 silent_bodies (VNum (Fin 2)) registered_twice =
     Some (Returns
       \<lparr>value' = VNum (Fin 2), listeners = [0, 0],
        calls = [(0, VNum (Fin 2), VNum (Fin 1)), (0, VNum (Fin 2), VNum (Fin 1))],
        heap = []\<rparr>)"
  by (simp add: set_body_def notifyChanged_def invoke_def strict_neq_def strict_eq_def
      two_listeners_def holding_nan_def registered_twice_def failing_bodies_def
      resetting_bodies_def silent_bodies_def)

text \<open>
  C2, as amended. A notification pass that returns, that is, one in which no listener
  throws, consists of one call of each listener registered when the pass starts, in
  subscription order, and of nothing else but what the bodies of these listeners do:
  there are the worlds between the calls, the first being the world at the start and
  the last the world at the end, and the call of the \<open>i\<close>-th listener of the snapshot
  leads from the \<open>i\<close>-th world to the next, its record being the first the call adds
  to the record of calls. This holds whatever the bodies subscribe or unsubscribe
  meanwhile, and also when a body calls \<open>set\<close> and so runs a pass of its own inside
  the call. When the bodies of the pass neither throw nor call \<open>set\<close>, the pass
  returns, the calls made are exactly the calls of the snapshot, and the listener list
  afterwards is the list with the bodies' subscriptions and unsubscriptions applied in
  order: a listener subscribed during the pass and not unsubscribed in it is registered
  afterwards, so the next pass calls it.
\<close>

theorem pass_invokes_snapshot:
  "(notifyChanged (nested_set n B) B prev w = Some (Returns w') \<longrightarrow>
      (\<exists>ws. length ws = Suc (length (listeners w)) \<and> ws ! 0 = w \<and>
         ws ! length (listeners w) = w' \<and>
         (\<forall>i<length (listeners w).
            invoke (nested_set n B) B (listeners w ! i) (value' (ws ! i)) prev (ws ! i) =
              Some (Returns (ws ! Suc i)) \<and>
            (\<exists>nested. calls (ws ! Suc i) =
               calls (ws ! i) @ (listeners w ! i, value' (ws ! i), prev) # nested))))
   \<and> (list_all quiet (pass_actions B (calls w) (listeners w) (value' w) prev) \<longrightarrow>
      (\<exists>u. notifyChanged (nested_set n B) B prev w = Some (Returns u) \<and>
         calls u = calls w @ map (\<lambda>l. (l, value' w, prev)) (listeners w) \<and>
         listeners u =
           relisten (pass_actions B (calls w) (listeners w) (value' w) prev) (listeners w) \<and>
         (\<forall>m. Subscribe m \<in> set (pass_actions B (calls w) (listeners w) (value' w) prev) \<and>
              Unsubscribe m \<notin> set (pass_actions B (calls w) (listeners w) (value' w) prev) \<longrightarrow>
              m \<in> set (listeners u))))"
proof -
  let ?ls = "listeners w"
  let ?re = "nested_set n B"
  have general: "\<exists>ws. length ws = Suc (length ?ls) \<and> ws ! 0 = w \<and> ws ! length ?ls = w' \<and>
         (\<forall>i<length ?ls.
            invoke ?re B (?ls ! i) (value' (ws ! i)) prev (ws ! i) = Some (Returns (ws ! Suc i)) \<and>
            (\<exists>nested. calls (ws ! Suc i) = calls (ws ! i) @ (?ls ! i, value' (ws ! i), prev) # nested))"
    if "notifyChanged ?re B prev w = Some (Returns w')"
  proof -
    from that have "forEach ?re B ?ls prev w = Some (Returns w')"
      by (simp add: notifyChanged_def)
    from forEach_chain [OF this] obtain ws
      where ws: "length ws = Suc (length ?ls)" "ws ! 0 = w" "ws ! length ?ls = w'"
        "\<forall>i<length ?ls. invoke ?re B (?ls ! i) (value' (ws ! i)) prev (ws ! i) =
          Some (Returns (ws ! Suc i))"
      by blast
    have "\<exists>nested. calls (ws ! Suc i) = calls (ws ! i) @ (?ls ! i, value' (ws ! i), prev) # nested"
      if "i < length ?ls" for i
    proof -
      from ws(4) that
      have "invoke ?re B (?ls ! i) (value' (ws ! i)) prev (ws ! i) = Some (Returns (ws ! Suc i))"
        by simp
      with nested_set_grows [of n B]
      have "(\<exists>cs. calls (world_of (Returns (ws ! Suc i))) =
          calls (ws ! i) @ (?ls ! i, value' (ws ! i), prev) # cs) \<and>
          heap (world_of (Returns (ws ! Suc i))) = heap (ws ! i)"
        by (rule invoke_grows)
      then show ?thesis by simp
    qed
    with ws show ?thesis by (intro exI [of _ ws]) simp
  qed
  have still: "\<exists>u. notifyChanged ?re B prev w = Some (Returns u) \<and>
         calls u = calls w @ map (\<lambda>l. (l, value' w, prev)) ?ls \<and>
         listeners u = relisten (pass_actions B (calls w) ?ls (value' w) prev) ?ls \<and>
         (\<forall>m. Subscribe m \<in> set (pass_actions B (calls w) ?ls (value' w) prev) \<and>
              Unsubscribe m \<notin> set (pass_actions B (calls w) ?ls (value' w) prev) \<longrightarrow>
              m \<in> set (listeners u))"
    if q: "list_all quiet (pass_actions B (calls w) ?ls (value' w) prev)"
  proof -
    let ?acts = "pass_actions B (calls w) ?ls (value' w) prev"
    let ?u = "w\<lparr>listeners := relisten ?acts ?ls,
               calls := calls w @ map (\<lambda>l. (l, value' w, prev)) ?ls\<rparr>"
    have "notifyChanged ?re B prev w = Some (Returns ?u)"
      using q by (simp add: notifyChanged_def forEach_quiet_pass)
    then show ?thesis
      by (intro exI [of _ ?u]) (simp add: relisten_keeps)
  qed
  from general still show ?thesis by blast
qed

text \<open>
  On \<open>holding_two\<close>, where listener 0 calls \<open>set(3)\<close>: the pass calls listener 0,
  inside which the pass of \<open>set(3)\<close> calls 0 and 1, and then listener 1. On
  \<open>two_listeners\<close>, where listener 0 at its first call subscribes listener 5 and
  unsubscribes listener 1: the pass calls 0 and 1; the next pass calls 0 and 5.
\<close>

theorem pass_invokes_snapshot_witness:
  "notifyChanged (nested_set 1 resetting_bodies) resetting_bodies (VNum (Fin 1)) holding_two =
       Some (Returns after_nested_pass)
   \<and> invoke (nested_set 1 resetting_bodies) resetting_bodies 0 (VNum (Fin 2)) (VNum (Fin 1))
        holding_two = Some (Returns inside_pass)
   \<and> invoke (nested_set 1 resetting_bodies) resetting_bodies 1 (VNum (Fin 3)) (VNum (Fin 1))
        inside_pass = Some (Returns after_nested_pass)
   \<and> list_all quiet
        (pass_actions subscribing_bodies (calls two_listeners) (listeners two_listeners)
           (value' two_listeners) (VNum (Fin 0)))
   \<and> notifyChanged (nested_set 0 subscribing_bodies) subscribing_bodies (VNum (Fin 0))
        two_listeners = Some (Returns after_first_pass)
   \<and> 5 \<in> set (listeners after_first_pass)
   \<and> notifyChanged (nested_set 0 subscribing_bodies) subscribing_bodies (VNum (Fin 0))
        after_first_pass =
       Some (Returns
         \<lparr>value' = VNum (Fin 1), listeners = [0, 5],
          calls = [(0, VNum (Fin 1), VNum (Fin 0)), (1, VNum (Fin 1), VNum (Fin 0)),
                   (0, VNum (Fin 1), VNum (Fin 0)), (5, VNum (Fin 1), VNum (Fin 0))],
          heap = []\<rparr>)"
  using pass_invokes_snapshot [where w = holding_two and B = resetting_bodies
      and prev = "VNum (Fin 1)" and n = 1 and w' = after_nested_pass]
    pass_invokes_snapshot [where w = two_listeners and B = subscribing_bodies
      and prev = "VNum (Fin 0)" and n = 0 and w' = after_first_pass]
  by (simp add: notifyChanged_def invoke_def nested_set_def set_body_def strict_neq_def
      strict_eq_def subscribe_def unsubscribe_def splice1_def two_listeners_def
      holding_two_def inside_pass_def after_nested_pass_def after_first_pass_def
      subscribing_bodies_def resetting_bodies_def)

text \<open>
  The claim as stated fails when a listener throws: of the snapshot \<open>[0, 1]\<close> only
  listener 0 is called.
\<close>

theorem pass_counterexample:
  "notifyChanged (nested_set 0 failing_bodies) failing_bodies (VNum (Fin 0)) two_listeners =
     Some (Throws (Error ''boom'')
       \<lparr>value' = VNum (Fin 1), listeners = [0, 1],
        calls = [(0, VNum (Fin 1), VNum (Fin 0))], heap = []\<rparr>)"
  by (simp add: notifyChanged_def invoke_def nested_set_def two_listeners_def failing_bodies_def)







text \<open>
  C5, as amended. \<open>serialize()\<close> is \<open>get()\<close> and \<open>deserialize(v)\<close> is \<open>set(v)\<close>. When
  the value is strictly equal to itself, that is, when it is not \<open>NaN\<close>,
  \<open>deserialize(serialize())\<close> returns the world as it was: no listener is called. When
  \<open>v\<close> is not strictly equal to the value \<open>a\<close>, and no listener registered throws or
  calls \<open>set\<close> when called with \<open>(v, a)\<close>, \<open>deserialize(v)\<close> returns, stores \<open>v\<close> and
  calls every registered listener with \<open>(v, a)\<close>, once for each of its registrations.
\<close>

theorem deserialize_is_set:
  "serialize w = get w
   \<and> deserialize n B v w = set_atom n B v w
   \<and> (strict_eq (get w) (get w) \<longrightarrow> deserialize n B (serialize w) w = Some (Returns w))
   \<and> (strict_neq v (get w) \<and>
      (\<forall>cs. \<forall>l\<in>set (listeners w). list_all quiet (B cs l v (get w))) \<longrightarrow>
        (\<exists>w'. deserialize n B v w = Some (Returns w') \<and> get w' = v \<and>
              calls w' = calls w @ map (\<lambda>l. (l, v, get w)) (listeners w)))"
  by (simp add: serialize_def deserialize_def get_def set_atom_same set_atom_quiet)

text \<open>At \<open>two_listeners\<close>, with silent listeners.\<close>

theorem deserialize_is_set_witness:
  "strict_eq (get two_listeners) (get two_listeners)
   \<and> deserialize 0 silent_bodies (serialize two_listeners) two_listeners =
       Some (Returns two_listeners)
   \<and> strict_neq (VNum (Fin 2)) (get two_listeners)
   \<and> (\<forall>cs. list_all quiet (silent_bodies cs 0 (VNum (Fin 2)) (VNum (Fin 1))))
   \<and> (\<forall>cs. list_all quiet (silent_bodies cs 1 (VNum (Fin 2)) (VNum (Fin 1))))
   \<and> deserialize 0 silent_bodies (VNum (Fin 2)) two_listeners =
       Some (Returns
         \<lparr>value' = VNum (Fin 2), listeners = [0, 1],
          calls = [(0, VNum (Fin 2), VNum (Fin 1)), (1, VNum (Fin 2), VNum (Fin 1))],
          heap = []\<rparr>)"
  using deserialize_is_set [where w = two_listeners and B = silent_bodies and n = 0
      and v = "VNum (Fin 2)"]
  by (simp add: deserialize_def serialize_def get_def set_body_def notifyChanged_def
      invoke_def strict_neq_def strict_eq_def two_listeners_def silent_bodies_def)

text \<open>
  The claim as stated fails on an atom holding \<open>NaN\<close>: \<open>deserialize(serialize())\<close>
  calls both listeners, with \<open>(NaN, NaN)\<close>. And \<open>deserialize(2)\<close> on an atom holding 1
  does not notify each listener once when listener 0 throws (listener 1 is never
  called), when listener 0 calls \<open>set(3)\<close> (each listener is called twice), or when
  listener 0 is registered twice (it is called twice).
\<close>

theorem deserialize_counterexample:
  "deserialize 0 silent_bodies (serialize holding_nan) holding_nan =
     Some (Returns
       \<lparr>value' = VNum NaN, listeners = [0, 1],
        calls = [(0, VNum NaN, VNum (Fin 1)), (1, VNum NaN, VNum (Fin 1)),
                 (0, VNum NaN, VNum NaN), (1, VNum NaN, VNum NaN)],
        heap = []\<rparr>)
   \<and> deserialize 0 failing_bodies (VNum (Fin 2)) two_listeners =
     Some (Throws (Error ''boom'')
       \<lparr>value' = VNum (Fin 2), listeners = [0, 1],
        calls = [(0, VNum (Fin 2), VNum (Fin 1))], heap = []\<rparr>)
   \<and> deserialize 1 resetting_bodies (VNum (Fin 2)) two_listeners =
     Some (Returns
       \<lparr>value' = VNum (Fin 3), listeners = [0, 1],
        calls = [(0, VNum (Fin 2), VNum (Fin 1)), (0, VNum (Fin 3), VNum (Fin 2)),
                 (1, VNum (Fin 3), VNum (Fin 2)), (1, VNum (Fin 3), VNum (Fin 1))],
        heap = []\<rparr>)
   \<and> deserialize 0 silent_bodies (VNum (Fin 2)) registered_twice =
     Some (Returns
       \<lparr>value' = VNum (Fin 2), listeners = [0, 0],
        calls = [(0, VNum (Fin 2), VNum (Fin 1)), (0, VNum (Fin 2), VNum (Fin 1))],
        heap = []\<rparr>)"
  by (simp add: deserialize_def serialize_def get_def set_body_def notifyChanged_def
      invoke_def strict_neq_def strict_eq_def holding_nan_def two_listeners_def
      registered_twice_def silent_bodies_def failing_bodies_def resetting_bodies_def)

text \<open>
  C6, as amended. \<open>unsubscribe(f)\<close> changes the listener list only: it removes the
  first entry equal to \<open>f\<close> and no other, keeps the order of the rest, and does nothing
  when \<open>f\<close> is not registered. Calling the handle \<open>subscribe(f)\<close> returned is
  \<open>unsubscribe(f)\<close>, in whatever world it is called. A second call of the handle is a
  no-op when \<open>f\<close> was registered at most once at the first call; otherwise it removes
  the next entry equal to \<open>f\<close>.
\<close>

theorem unsubscribe_first_match:
  "unsubscribe f w = w\<lparr>listeners := remove1 f (listeners w)\<rparr>
   \<and> (f \<notin> set (listeners w) \<longrightarrow> unsubscribe f w = w)
   \<and> (f \<in> set (listeners w) \<longrightarrow>
        (\<exists>pre post. listeners w = pre @ f # post \<and> f \<notin> set pre \<and>
            unsubscribe f w = w\<lparr>listeners := pre @ post\<rparr>))
   \<and> call_handle (fst (subscribe f w)) u = unsubscribe f u
   \<and> (count_list (listeners u) f \<le> 1 \<longrightarrow>
        call_handle (fst (subscribe f w)) (call_handle (fst (subscribe f w)) u) =
        call_handle (fst (subscribe f w)) u)"
proof (intro conjI impI)
  show "unsubscribe f w = w\<lparr>listeners := remove1 f (listeners w)\<rparr>" by (rule unsubscribe_eq)
  show "unsubscribe f w = w" if "f \<notin> set (listeners w)"
    using that by (simp add: unsubscribe_eq remove1_idem)
  show "\<exists>pre post. listeners w = pre @ f # post \<and> f \<notin> set pre \<and>
            unsubscribe f w = w\<lparr>listeners := pre @ post\<rparr>" if "f \<in> set (listeners w)"
  proof -
    from remove1_split [OF that] obtain pre post
      where "listeners w = pre @ f # post" "f \<notin> set pre"
        "remove1 f (listeners w) = pre @ post"
      by blast
    then show ?thesis
      by (intro exI [of _ pre] exI [of _ post]) (simp add: unsubscribe_eq)
  qed
  show "call_handle (fst (subscribe f w)) u = unsubscribe f u"
    by (simp add: subscribe_def)
  show "call_handle (fst (subscribe f w)) (call_handle (fst (subscribe f w)) u) =
        call_handle (fst (subscribe f w)) u" if "count_list (listeners u) f \<le> 1"
    using remove1_last_copy [OF that] by (simp add: subscribe_def unsubscribe_eq remove1_idem)
qed

text \<open>
  At \<open>two_listeners\<close>: listener 1 is registered once; listener 7 is not registered.
\<close>

theorem unsubscribe_first_match_witness:
  "7 \<notin> set (listeners two_listeners)
   \<and> unsubscribe 7 two_listeners = two_listeners
   \<and> 1 \<in> set (listeners two_listeners)
   \<and> listeners (unsubscribe 1 two_listeners) = [0]
   \<and> count_list (listeners two_listeners) 1 \<le> 1
   \<and> call_handle (fst (subscribe 1 two_listeners))
        (call_handle (fst (subscribe 1 two_listeners)) two_listeners) =
      call_handle (fst (subscribe 1 two_listeners)) two_listeners"
  using unsubscribe_first_match [where f = 7 and w = two_listeners and u = two_listeners]
    unsubscribe_first_match [where f = 1 and w = two_listeners and u = two_listeners]
  by (simp add: two_listeners_def subscribe_def unsubscribe_def splice1_def)

text \<open>
  The claim as stated fails when the listener is registered twice: after
  \<open>subscribe(0)\<close> on \<open>two_listeners\<close> the list is \<open>[0, 1, 0]\<close>; the first call of the
  handle leaves \<open>[1, 0]\<close> and the second call leaves \<open>[1]\<close>.
\<close>

theorem handle_twice_counterexample:
  "snd (subscribe 0 two_listeners) =
     \<lparr>value' = VNum (Fin 1), listeners = [0, 1, 0], calls = [], heap = []\<rparr>
   \<and> call_handle (fst (subscribe 0 two_listeners)) (snd (subscribe 0 two_listeners)) =
     \<lparr>value' = VNum (Fin 1), listeners = [1, 0], calls = [], heap = []\<rparr>
   \<and> call_handle (fst (subscribe 0 two_listeners))
       (call_handle (fst (subscribe 0 two_listeners)) (snd (subscribe 0 two_listeners))) =
     \<lparr>value' = VNum (Fin 1), listeners = [1], calls = [], heap = []\<rparr>"
  by (simp add: subscribe_def unsubscribe_def splice1_def two_listeners_def)

text \<open>
  C7. The hook returns the fallback value when, at its first render, no atom is
  supplied. Mounted with an atom holding 1, its effect stores the value read from the
  atom and subscribes the setter. Rendered again with no atom and the fallback 7, it
  returns 1, the state it had: \<open>useState\<close> takes the fallback at the first render only,
  and the effect returns at once when there is no atom, so nothing sets the state to
  the fallback.
\<close>

theorem useValue_keeps_stale_value:
  "useValue_result (useValue_render None None (VNum (Fin 7))) = VNum (Fin 7)
   \<and> useValue_render None (Some two_listeners) (VNum (Fin 7)) = \<lparr>localValue = VNum (Fin 1)\<rparr>
   \<and> useValue_effect 9 (Some two_listeners) \<lparr>localValue = VNum (Fin 1)\<rparr> =
       (Some \<lparr>value' = VNum (Fin 1), listeners = [0, 1, 9], calls = [], heap = []\<rparr>,
        \<lparr>localValue = VNum (Fin 1)\<rparr>, Some (Cleanup 9))
   \<and> useValue_result (useValue_render (Some \<lparr>localValue = VNum (Fin 1)\<rparr>) None (VNum (Fin 7))) =
       VNum (Fin 1)
   \<and> useValue_effect 9 None \<lparr>localValue = VNum (Fin 1)\<rparr> =
       (None, \<lparr>localValue = VNum (Fin 1)\<rparr>, None)"
  by (simp add: useValue_render_def useState_def useValue_effect_def useValue_result_def
      subscribe_def get_def Let_def two_listeners_def)


section \<open>Properties of the client query functions\<close>

text \<open>
  C8. \<open>transformCertificateExchangeMediumToType\<close> returns \<open>'FS_ACCESS'\<close> for
  \<open>undefined\<close> and for 1, \<open>'WWW'\<close> for 2 and \<open>'NONE'\<close> for 3; for every other number,
  also one that is not finite, it throws an error whose message ends with the number;
  and whenever it returns, the argument is one of these four and the result one of
  these three strings.
\<close>

theorem transform_medium_total:
  "transformCertificateExchangeMediumToType toString None = Inr ''FS_ACCESS''
   \<and> transformCertificateExchangeMediumToType toString (Some (Fin 1)) = Inr ''FS_ACCESS''
   \<and> transformCertificateExchangeMediumToType toString (Some (Fin 2)) = Inr ''WWW''
   \<and> transformCertificateExchangeMediumToType toString (Some (Fin 3)) = Inr ''NONE''
   \<and> (m \<notin> {Fin 1, Fin 2, Fin 3} \<longrightarrow>
        transformCertificateExchangeMediumToType toString (Some m) =
          Inl (Error (''Unknown Certificate exchange medium: '' @ toString m)))
   \<and> (transformCertificateExchangeMediumToType toString medium = Inr t \<longrightarrow>
        medium \<in> {None, Some (Fin 1), Some (Fin 2), Some (Fin 3)} \<and>
        t \<in> {''FS_ACCESS'', ''WWW'', ''NONE''})"
  by (auto simp: transformCertificateExchangeMediumToType_def split: option.splits if_splits)

theorem transform_medium_total_witness:
  "Fin 4 \<notin> {Fin 1, Fin 2, Fin 3}
   \<and> NaN \<notin> {Fin 1, Fin 2, Fin 3}
   \<and> transformCertificateExchangeMediumToType always_four (Some (Fin 4)) =
       Inl (Error ''Unknown Certificate exchange medium: 4'')
   \<and> transformCertificateExchangeMediumToType always_four (Some (Fin 2)) = Inr ''WWW''
   \<and> Some (Fin 2) \<in> {None, Some (Fin 1), Some (Fin 2), Some (Fin 3)}"
  using transform_medium_total [where toString = always_four and m = "Fin 4"
      and medium = "Some (Fin 2)" and t = "''WWW''"]
  by (simp add: always_four_def)

text \<open>
  C10. \<open>cloneClientQuerySafeForLogging(q)\<close> allocates one new object and changes no
  object there was, the query \<open>q\<close> among them. The new object has the properties of
  \<open>q\<close>, each with the same value, except \<open>csr\<close>, which reads \<open>'<hidden>'\<close> when
  \<open>q.csr\<close> is truthy and as \<open>q.csr\<close> reads otherwise.
\<close>

theorem clone_hides_csr:
  "q < length h \<longrightarrow>
     (case cloneClientQuerySafeForLogging h q of
        (h', q') \<Rightarrow>
          q' = length h \<and> q' \<noteq> q \<and> length h' = Suc (length h) \<and>
          (\<forall>p<length h. h' ! p = h ! p) \<and>
          (\<forall>k. k \<noteq> ''csr'' \<longrightarrow> (h' ! q') k = (h ! q) k) \<and>
          get_prop (h' ! q') ''csr'' =
            (if truthy (get_prop (h ! q) ''csr'') then VStr ''<hidden>''
             else get_prop (h ! q) ''csr''))"
  by (auto simp: cloneClientQuerySafeForLogging_def alloc_def Let_def nth_append get_prop_def)

theorem clone_hides_csr_witness:
  "0 < length query_heap
   \<and> cloneClientQuerySafeForLogging query_heap 0 =
       (query_heap @ [[''app'' \<mapsto> VStr ''demo'', ''csr'' \<mapsto> VStr ''<hidden>'']], 2)
   \<and> 1 < length query_heap
   \<and> get_prop (fst (cloneClientQuerySafeForLogging query_heap 1) ! 2) ''csr'' = VStr ''''
   \<and> get_prop (fst (cloneClientQuerySafeForLogging query_heap 1) ! 2) ''app'' = VStr ''demo''"
  using clone_hides_csr [where h = query_heap and q = 0]
    clone_hides_csr [where h = query_heap and q = 1]
  by (simp add: cloneClientQuerySafeForLogging_def alloc_def get_prop_def query_heap_def Let_def)


section \<open>Properties of the table plugin\<close>

text \<open>
  C9, as amended. While \<open>isPaused.get()\<close> is truthy the handler returns the instance
  as it is, whatever \<open>upsert\<close> and \<open>append\<close> would do: the rows are unchanged. When it
  is not paused and the row is built, the row is upserted if the \<open>key\<close> option is
  truthy, and appended otherwise: when no key is given, and also when the key given
  is falsy, as the empty string is.
\<close>

theorem paused_drops_message:
  "(truthy (get (isPaused inst)) \<longrightarrow> onMessage upsert append' props inst event = Inr inst)
   \<and> (\<not> truthy (get (isPaused inst)) \<and> build_row props event = Inr row \<and> key_truthy props \<longrightarrow>
        onMessage upsert append' props inst event =
          (case upsert (rows inst) row of Inl e \<Rightarrow> Inl e | Inr ds \<Rightarrow> Inr (inst\<lparr>rows := ds\<rparr>)))
   \<and> (\<not> truthy (get (isPaused inst)) \<and> build_row props event = Inr row \<and> \<not> key_truthy props \<longrightarrow>
        onMessage upsert append' props inst event =
          (case append' (rows inst) row of Inl e \<Rightarrow> Inl e | Inr ds \<Rightarrow> Inr (inst\<lparr>rows := ds\<rparr>)))
   \<and> (key_truthy props \<longleftrightarrow> (\<exists>k. key props = Some k \<and> truthy k))"
  by (auto simp: onMessage_def key_truthy_def split: option.splits)

theorem paused_drops_message_witness:
  "truthy (get (isPaused (table_instance True)))
   \<and> onMessage logging_upsert logging_append (keyed_props (Some (VStr ''id'')))
        (table_instance True) (VRef 0) = Inr (table_instance True)
   \<and> \<not> truthy (get (isPaused (table_instance False)))
   \<and> key_truthy (keyed_props (Some (VStr ''id'')))
   \<and> onMessage logging_upsert logging_append (keyed_props (Some (VStr ''id'')))
        (table_instance False) (VRef 0) =
       Inr \<lparr>rows = [(''upsert'', VRef 0)], isPaused = flag_atom False\<rparr>
   \<and> \<not> key_truthy (keyed_props None)
   \<and> onMessage logging_upsert logging_append (keyed_props None)
        (table_instance False) (VRef 0) =
       Inr \<lparr>rows = [(''append'', VRef 0)], isPaused = flag_atom False\<rparr>"
  using paused_drops_message [where inst = "table_instance True" and upsert = logging_upsert
      and append' = logging_append and props = "keyed_props (Some (VStr ''id''))"
      and event = "VRef 0" and row = "VRef 0"]
    paused_drops_message [where inst = "table_instance False" and upsert = logging_upsert
      and append' = logging_append and props = "keyed_props (Some (VStr ''id''))"
      and event = "VRef 0" and row = "VRef 0"]
    paused_drops_message [where inst = "table_instance False" and upsert = logging_upsert
      and append' = logging_append and props = "keyed_props None"
      and event = "VRef 0" and row = "VRef 0"]
  by (simp add: table_instance_def flag_atom_def keyed_props_def get_def key_truthy_def
      build_row_def logging_upsert_def logging_append_def onMessage_def)

text \<open>
  The claim as stated fails for the key \<open>''\<close>: the option is given, and the row is
  appended, not upserted.
\<close>

theorem empty_key_counterexample:
  "key (keyed_props (Some (VStr ''''))) = Some (VStr '''')
   \<and> onMessage logging_upsert logging_append (keyed_props (Some (VStr '''')))
        (table_instance False) (VRef 0) =
       Inr \<lparr>rows = [(''append'', VRef 0)], isPaused = flag_atom False\<rparr>"
  by (simp add: table_instance_def flag_atom_def keyed_props_def get_def key_truthy_def
      build_row_def logging_append_def onMessage_def)

end
